theory Spec2Isabelle
  imports Complex_Main
begin

section \<open>Python values used by Conversion.py\<close>

text \<open>
  The program reads the text of Tk variables, converts it with \<^verbatim>\<open>float()\<close>, does one
  float operation and formats the result with \<^verbatim>\<open>f"{x:.2f} bits/s"\<close>.  The builtins are
  modelled here with the behaviour CPython has on IEEE 754 binary64 hardware:
  correctly rounded (round to nearest, ties to even) conversion, arithmetic and
  formatting.

  A Python \<^verbatim>\<open>str\<close> is a \<^typ>\<open>string\<close>, one \<^typ>\<open>char\<close> per code point; so the model covers the
  strings whose code points are in U+0000..U+00FF.
\<close>

subsection \<open>Exceptions\<close>

datatype exn = ValueError | ZeroDivisionError | OverflowError | AttributeError

subsection \<open>binary64 floats\<close>

text \<open>
  \<open>Finite s m e\<close> is the number \<open>(-1)\<^sup>s * m * 2\<^sup>e\<close>.  The values of a binary64 are the
  ones with \<open>2\<^sup>5\<^sup>2 \<le> m < 2\<^sup>5\<^sup>3\<close> and \<open>-1074 \<le> e \<le> 971\<close> (normal numbers), and with
  \<open>m < 2\<^sup>5\<^sup>2\<close> and \<open>e = -1074\<close> (subnormal numbers and the two zeros).  The sign and
  payload of a NaN are not observable in this program and are not kept.
\<close>

datatype pyfloat = Finite bool int int | Infinity bool | NaN

definition is_double :: "pyfloat \<Rightarrow> bool" where
  "is_double x =
     (case x of
        Finite s m e \<Rightarrow>
          (2 ^ 52 \<le> m \<and> m < 2 ^ 53 \<and> - 1074 \<le> e \<and> e \<le> 971) \<or>
          (0 \<le> m \<and> m < 2 ^ 52 \<and> e = - 1074)
      | _ \<Rightarrow> True)"

function bit_length :: "int \<Rightarrow> int" where
  "bit_length n = (if n \<le> 0 then 0 else 1 + bit_length (n div 2))"
  by pat_completeness auto
termination
  by (relation "measure nat") auto

declare bit_length.simps [simp del]

text \<open>\<open>round_half_even n d\<close> is the integer nearest to \<open>n / d\<close>, for \<open>0 \<le> n\<close> and \<open>0 < d\<close>.\<close>

definition round_half_even :: "int \<Rightarrow> int \<Rightarrow> int" where
  "round_half_even n d =
     (let q = n div d; r = n mod d
      in if 2 * r < d then q
         else if d < 2 * r then q + 1
         else if even q then q else q + 1)"

text \<open>\<open>floor_log2 n d\<close> is the integer \<open>k\<close> with \<open>2\<^sup>k \<le> n / d < 2\<^sup>k\<^sup>+\<^sup>1\<close>, for \<open>0 < n\<close> and \<open>0 < d\<close>.\<close>

definition floor_log2 :: "int \<Rightarrow> int \<Rightarrow> int" where
  "floor_log2 n d =
     (let b = bit_length n - bit_length d
      in if (if 0 \<le> b then d * 2 ^ nat b \<le> n else d \<le> n * 2 ^ nat (- b)) then b else b - 1)"

text \<open>
  \<open>round_to_double s n d x\<close> is the binary64 nearest to \<open>(-1)\<^sup>s * (n / d) * 2\<^sup>x\<close>, for
  \<open>0 \<le> n\<close> and \<open>0 < d\<close>: 53 significant bits, exponent not below \<open>-1074\<close>, infinity on
  overflow.
\<close>

definition round_to_double :: "bool \<Rightarrow> int \<Rightarrow> int \<Rightarrow> int \<Rightarrow> pyfloat" where
  "round_to_double s n d x =
     (if n = 0 then Finite s 0 (- 1074)
      else
        let e = max (x + floor_log2 n d - 52) (- 1074);
            k = x - e;
            m = (if 0 \<le> k then round_half_even (n * 2 ^ nat k) d
                 else round_half_even n (d * 2 ^ nat (- k)));
            m' = (if m = 2 ^ 53 then 2 ^ 52 else m);
            e' = (if m = 2 ^ 53 then e + 1 else e)
        in if 971 < e' then Infinity s else Finite s m' e')"

subsection \<open>float arithmetic\<close>

text \<open>\<^verbatim>\<open>a + b\<close> on floats never raises.\<close>

fun float_add :: "pyfloat \<Rightarrow> pyfloat \<Rightarrow> pyfloat" where
  "float_add NaN _ = NaN"
| "float_add _ NaN = NaN"
| "float_add (Infinity s) (Infinity t) = (if s = t then Infinity s else NaN)"
| "float_add (Infinity s) (Finite _ _ _) = Infinity s"
| "float_add (Finite _ _ _) (Infinity t) = Infinity t"
| "float_add (Finite s m e) (Finite t n f) =
     (let g = min e f;
          a = (if s then - m else m) * 2 ^ nat (e - g);
          b = (if t then - n else n) * 2 ^ nat (f - g);
          c = a + b
      in if c = 0 then Finite (s \<and> t) 0 (- 1074)
         else round_to_double (c < 0) \<bar>c\<bar> 1 g)"

text \<open>\<^verbatim>\<open>a * b\<close> on floats never raises.\<close>

fun float_mul :: "pyfloat \<Rightarrow> pyfloat \<Rightarrow> pyfloat" where
  "float_mul NaN _ = NaN"
| "float_mul _ NaN = NaN"
| "float_mul (Infinity s) (Infinity t) = Infinity (s \<noteq> t)"
| "float_mul (Infinity s) (Finite t n f) = (if n = 0 then NaN else Infinity (s \<noteq> t))"
| "float_mul (Finite s m e) (Infinity t) = (if m = 0 then NaN else Infinity (s \<noteq> t))"
| "float_mul (Finite s m e) (Finite t n f) = round_to_double (s \<noteq> t) (m * n) 1 (e + f)"

text \<open>\<^verbatim>\<open>a / b\<close> on floats raises ZeroDivisionError when \<open>b\<close> is a zero.\<close>

definition is_zero :: "pyfloat \<Rightarrow> bool" where
  "is_zero x = (case x of Finite _ m _ \<Rightarrow> m = 0 | _ \<Rightarrow> False)"

fun float_div :: "pyfloat \<Rightarrow> pyfloat \<Rightarrow> pyfloat" where
  "float_div NaN _ = NaN"
| "float_div _ NaN = NaN"
| "float_div (Infinity s) (Infinity t) = NaN"
| "float_div (Infinity s) (Finite t n f) = Infinity (s \<noteq> t)"
| "float_div (Finite s m e) (Infinity t) = Finite (s \<noteq> t) 0 (- 1074)"
| "float_div (Finite s m e) (Finite t n f) = round_to_double (s \<noteq> t) m n (e - f)"

definition float_truediv :: "pyfloat \<Rightarrow> pyfloat \<Rightarrow> exn + pyfloat" where
  "float_truediv a b = (if is_zero b then Inl ZeroDivisionError else Inr (float_div a b))"

text \<open>
  The conversion of a Python \<^verbatim>\<open>int\<close> operand to float: correctly rounded, OverflowError
  when the integer is too large for a binary64.
\<close>

definition int_to_float :: "int \<Rightarrow> exn + pyfloat" where
  "int_to_float i =
     (case round_to_double (i < 0) \<bar>i\<bar> 1 0 of
        Infinity _ \<Rightarrow> Inl OverflowError
      | x \<Rightarrow> Inr x)"

text \<open>
  A float literal of the source with an integral value: \<^verbatim>\<open>2.0\<close> is \<open>float_literal 2\<close>,
  \<^verbatim>\<open>1000.0\<close> is \<open>float_literal 1000\<close>.
\<close>

definition float_literal :: "int \<Rightarrow> pyfloat" where
  "float_literal i = round_to_double (i < 0) \<bar>i\<bar> 1 0"

subsection \<open>\<^verbatim>\<open>float(str)\<close>\<close>

text \<open>The character classes of CPython's \<^verbatim>\<open>pyctype.h\<close> and, for U+007F..U+00FF, of its Unicode tables.\<close>

definition Py_ISSPACE :: "char \<Rightarrow> bool" where
  "Py_ISSPACE c = (c \<in> set [CHR 0x09, CHR 0x0A, CHR 0x0B, CHR 0x0C, CHR 0x0D, CHR 0x20])"

definition Py_ISDIGIT :: "char \<Rightarrow> bool" where
  "Py_ISDIGIT c = (c \<in> set ''0123456789'')"

definition Py_TOLOWER :: "char \<Rightarrow> char" where
  "Py_TOLOWER c =
     (if c \<in> set ''ABCDEFGHIJKLMNOPQRSTUVWXYZ'' then char_of (of_char c + (32::nat)) else c)"

definition Py_UNICODE_ISSPACE :: "char \<Rightarrow> bool" where
  "Py_UNICODE_ISSPACE c =
     (Py_ISSPACE c \<or> c \<in> set [CHR 0x1C, CHR 0x1D, CHR 0x1E, CHR 0x1F, CHR 0x85, CHR 0xA0])"

text \<open>
  A string with a character outside ASCII is first rewritten: Unicode white space
  becomes a blank, a Unicode decimal digit its ASCII digit (there is none in
  U+0080..U+00FF), and the string is cut after a \<^verbatim>\<open>?\<close> at the first other character
  from U+007F on.
\<close>

fun transform_decimal_and_space :: "string \<Rightarrow> string" where
  "transform_decimal_and_space [] = []"
| "transform_decimal_and_space (c # cs) =
     (if (of_char c :: nat) < 127 then c # transform_decimal_and_space cs
      else if Py_UNICODE_ISSPACE c then CHR '' '' # transform_decimal_and_space cs
      else [CHR ''?''])"

definition to_ascii :: "string \<Rightarrow> string" where
  "to_ascii s =
     (if list_all (\<lambda>c. (of_char c :: nat) < 128) s then s else transform_decimal_and_space s)"

definition strip_space :: "string \<Rightarrow> string" where
  "strip_space s = rev (dropWhile Py_ISSPACE (rev (dropWhile Py_ISSPACE s)))"

text \<open>
  Underscores are allowed between two digits only; \<open>prev\<close> is the character before
  the rest of the string.
\<close>

fun remove_underscores :: "char \<Rightarrow> string \<Rightarrow> string option" where
  "remove_underscores prev [] = (if prev = CHR ''_'' then None else Some [])"
| "remove_underscores prev (c # cs) =
     (if c = CHR ''_'' then
        (if Py_ISDIGIT prev then remove_underscores c cs else None)
      else if prev = CHR ''_'' \<and> \<not> Py_ISDIGIT c then None
      else map_option (Cons c) (remove_underscores c cs))"

definition digit_value :: "char \<Rightarrow> int" where
  "digit_value c = of_char c - 48"

definition digits_value :: "string \<Rightarrow> int" where
  "digits_value ds = foldl (\<lambda>a c. 10 * a + digit_value c) 0 ds"

definition parse_sign :: "string \<Rightarrow> bool \<times> string" where
  "parse_sign s =
     (case s of
        [] \<Rightarrow> (False, [])
      | c # t \<Rightarrow> if c = CHR ''-'' then (True, t) else if c = CHR ''+'' then (False, t) else (False, s))"

text \<open>The binary64 nearest to \<open>(-1)\<^sup>s * D * 10\<^sup>k\<close>.\<close>

definition decimal_to_double :: "bool \<Rightarrow> int \<Rightarrow> int \<Rightarrow> pyfloat" where
  "decimal_to_double neg D k =
     (if 0 \<le> k then round_to_double neg (D * 10 ^ nat k) 1 0
      else round_to_double neg D (10 ^ nat (- k)) 0)"

text \<open>
  The decimal syntax: a sign, digits with at most one point and at least one digit,
  and an exponent \<^verbatim>\<open>e\<close> or \<^verbatim>\<open>E\<close> with its sign and at least one digit.  \<open>None\<close> when
  the whole string is not such a number.
\<close>

definition dg_strtod :: "string \<Rightarrow> pyfloat option" where
  "dg_strtod s =
     (let (neg, t) = parse_sign s;
          ip = takeWhile Py_ISDIGIT t;
          r1 = dropWhile Py_ISDIGIT t;
          has_point = (r1 \<noteq> [] \<and> hd r1 = CHR ''.'');
          fp = (if has_point then takeWhile Py_ISDIGIT (tl r1) else []);
          r2 = (if has_point then dropWhile Py_ISDIGIT (tl r1) else r1);
          D = digits_value (ip @ fp);
          k = - int (length fp)
      in if ip = [] \<and> fp = [] then None
         else
           (case r2 of
              [] \<Rightarrow> Some (decimal_to_double neg D k)
            | c # u \<Rightarrow>
                if c = CHR ''e'' \<or> c = CHR ''E'' then
                  (let (eneg, ds) = parse_sign u
                   in if ds \<noteq> [] \<and> list_all Py_ISDIGIT ds then
                        Some (decimal_to_double neg D
                               ((if eneg then - digits_value ds else digits_value ds) + k))
                      else None)
                else None))"

text \<open>\<^verbatim>\<open>inf\<close>, \<^verbatim>\<open>infinity\<close> and \<^verbatim>\<open>nan\<close>, with a sign, in any case.\<close>

definition parse_inf_or_nan :: "string \<Rightarrow> pyfloat option" where
  "parse_inf_or_nan s =
     (let (neg, t) = parse_sign s;
          l = map Py_TOLOWER t
      in if l = ''inf'' \<or> l = ''infinity'' then Some (Infinity neg)
         else if l = ''nan'' then Some NaN
         else None)"

definition float_from_string_inner :: "string \<Rightarrow> exn + pyfloat" where
  "float_from_string_inner s =
     (case dg_strtod s of
        Some x \<Rightarrow> Inr x
      | None \<Rightarrow> (case parse_inf_or_nan s of Some x \<Rightarrow> Inr x | None \<Rightarrow> Inl ValueError))"

definition string_to_number_with_underscores :: "string \<Rightarrow> exn + pyfloat" where
  "string_to_number_with_underscores s =
     (if CHR ''_'' \<notin> set s then float_from_string_inner s
      else
        (case remove_underscores (CHR 0x00) s of
           None \<Rightarrow> Inl ValueError
         | Some d \<Rightarrow> float_from_string_inner d))"

definition py_float :: "string \<Rightarrow> exn + pyfloat" where
  "py_float s = string_to_number_with_underscores (strip_space (to_ascii s))"

subsection \<open>\<^verbatim>\<open>format(x, ".2f")\<close>\<close>

definition digit_char :: "int \<Rightarrow> char" where
  "digit_char d = ''0123456789'' ! nat d"

function decimal_digits :: "int \<Rightarrow> string" where
  "decimal_digits n =
     (if n < 10 then [digit_char n] else decimal_digits (n div 10) @ [digit_char (n mod 10)])"
  by pat_completeness auto
termination
  by (relation "measure nat") auto

declare decimal_digits.simps [simp del]

text \<open>
  Two digits after the point, the exact binary value rounded to nearest with ties to
  even; the sign of a negative number is kept also when it rounds to zero.
\<close>

fun format_2f :: "pyfloat \<Rightarrow> string" where
  "format_2f NaN = ''nan''"
| "format_2f (Infinity s) = (if s then ''-inf'' else ''inf'')"
| "format_2f (Finite s m e) =
     (let c = (if 0 \<le> e then m * 2 ^ nat e * 100 else round_half_even (m * 100) (2 ^ nat (- e)))
      in (if s then ''-'' else []) @ decimal_digits (c div 100) @ ''.'' @
         [digit_char (c div 10 mod 10), digit_char (c mod 10)])"

section \<open>The modulation classes\<close>

datatype mod_class = ModulationBase | QPSKModulation | FSKModulation

text \<open>
  An object of one of the three classes.  The fields are the Tk variables' texts;
  \<open>freq_dev_var\<close> is an attribute only FSK objects have.  Labels, entries and frames have
  no part in what is computed and are left out.
\<close>

record modulation =
  cls :: mod_class
  current_row :: nat
  rate_var :: string
  data_rate_var :: string
  diagram_var :: string
  freq_dev_var :: "string option"

text \<open>\<open>freq_dev\<close> of the FSK method holds a float or the integer \<^verbatim>\<open>0\<close>.\<close>

datatype pynum = PyInt int | PyFloat pyfloat

fun num_truediv :: "pynum \<Rightarrow> pyfloat \<Rightarrow> exn + pyfloat" where
  "num_truediv (PyFloat a) b = float_truediv a b"
| "num_truediv (PyInt i) b =
     (case int_to_float i of Inl err \<Rightarrow> Inl err | Inr a \<Rightarrow> float_truediv a b)"

definition ModulationBase_calculate_data_rate :: "modulation \<Rightarrow> exn + string" where
  "ModulationBase_calculate_data_rate self =
     (case py_float (rate_var self) of
        Inl ValueError \<Rightarrow> Inr ''Invalid input''
      | Inl err \<Rightarrow> Inl err
      | Inr rate \<Rightarrow> Inr (format_2f rate @ '' bits/s''))"

definition QPSKModulation_calculate_data_rate :: "modulation \<Rightarrow> exn + string" where
  "QPSKModulation_calculate_data_rate self =
     (case py_float (rate_var self) of
        Inl ValueError \<Rightarrow> Inr ''Invalid input''
      | Inl err \<Rightarrow> Inl err
      | Inr rate \<Rightarrow>
          (let data_rate = float_mul rate (float_literal 2)
           in Inr (format_2f data_rate @ '' bits/s'')))"

definition FSKModulation_freq_dev :: "modulation \<Rightarrow> exn + pynum" where
  "FSKModulation_freq_dev self =
     (case freq_dev_var self of
        None \<Rightarrow> Inl AttributeError
      | Some d \<Rightarrow>
          (case py_float d of
             Inl ValueError \<Rightarrow> Inr (PyInt 0)
           | Inl err \<Rightarrow> Inl err
           | Inr x \<Rightarrow> Inr (PyFloat x)))"

definition FSKModulation_calculate_data_rate :: "modulation \<Rightarrow> exn + string" where
  "FSKModulation_calculate_data_rate self =
     (case py_float (rate_var self) of
        Inl ValueError \<Rightarrow> Inr ''Invalid input''
      | Inl err \<Rightarrow> Inl err
      | Inr rate \<Rightarrow>
          (case FSKModulation_freq_dev self of
             Inl err \<Rightarrow> Inl err
           | Inr freq_dev \<Rightarrow>
               (case num_truediv freq_dev (float_literal 1000) of
                  Inl err \<Rightarrow> Inl err
                | Inr q \<Rightarrow>
                    (let data_rate = float_add rate q
                     in Inr (format_2f data_rate @ '' bits/s'')))))"

definition calculate_data_rate :: "modulation \<Rightarrow> exn + string" where
  "calculate_data_rate self =
     (case cls self of
        ModulationBase \<Rightarrow> ModulationBase_calculate_data_rate self
      | QPSKModulation \<Rightarrow> QPSKModulation_calculate_data_rate self
      | FSKModulation \<Rightarrow> FSKModulation_calculate_data_rate self)"

definition ModulationBase_get_diagram :: "modulation \<Rightarrow> string" where
  "ModulationBase_get_diagram self = ''*                *''"

definition QPSKModulation_get_diagram :: "modulation \<Rightarrow> string" where
  "QPSKModulation_get_diagram self =
     ''    *'' @ [CHR 0x0A] @ ''*       *'' @ [CHR 0x0A] @ ''    *''"

definition FSKModulation_get_diagram :: "modulation \<Rightarrow> string" where
  "FSKModulation_get_diagram self =
     ''FSK constellation diagram'' @ [CHR 0x0A] @ ''(not defined)''"

definition get_diagram :: "modulation \<Rightarrow> string" where
  "get_diagram self =
     (case cls self of
        ModulationBase \<Rightarrow> ModulationBase_get_diagram self
      | QPSKModulation \<Rightarrow> QPSKModulation_get_diagram self
      | FSKModulation \<Rightarrow> FSKModulation_get_diagram self)"

definition update :: "modulation \<Rightarrow> exn + modulation" where
  "update self =
     (case calculate_data_rate self of
        Inl err \<Rightarrow> Inl err
      | Inr text \<Rightarrow>
          (let self1 = self\<lparr>data_rate_var := text\<rparr>
           in Inr (self1\<lparr>diagram_var := get_diagram self1\<rparr>)))"

definition ModulationBase_build_widgets :: "modulation \<Rightarrow> modulation" where
  "ModulationBase_build_widgets self =
     (let self1 = self\<lparr>rate_var := ''0''\<rparr>;
          self2 = self1\<lparr>current_row := current_row self1 + 1\<rparr>;
          self3 = self2\<lparr>data_rate_var := ''0.00 bits/s''\<rparr>
      in self3\<lparr>current_row := current_row self3 + 1\<rparr>)"

definition FSKModulation_build_widgets :: "modulation \<Rightarrow> modulation" where
  "FSKModulation_build_widgets self =
     (let self1 = ModulationBase_build_widgets self;
          self2 = self1\<lparr>freq_dev_var := Some ''0''\<rparr>
      in self2\<lparr>current_row := current_row self2 + 1\<rparr>)"

definition build_widgets :: "modulation \<Rightarrow> modulation" where
  "build_widgets self =
     (case cls self of
        FSKModulation \<Rightarrow> FSKModulation_build_widgets self
      | _ \<Rightarrow> ModulationBase_build_widgets self)"

definition build_diagram :: "modulation \<Rightarrow> modulation" where
  "build_diagram self =
     (let self1 = self\<lparr>diagram_var := get_diagram self\<rparr>
      in self1\<lparr>current_row := current_row self1 + 1\<rparr>)"

text \<open>
  \<^verbatim>\<open>mod_class(parent)\<close>: the constructor of \<open>ModulationBase\<close>, which the subclasses
  inherit.  The text fields are assigned by \<open>build_widgets\<close> and \<open>build_diagram\<close>; the
  empty texts of the first record are never read.
\<close>

definition new_modulation :: "mod_class \<Rightarrow> modulation" where
  "new_modulation c =
     build_diagram (build_widgets
       \<lparr>cls = c, current_row = 0, rate_var = [], data_rate_var = [], diagram_var = [],
        freq_dev_var = None\<rparr>)"

section \<open>The application\<close>

record app =
  selected_mod_type :: string
  current_mod_obj :: "modulation option"

definition mod_types :: "string \<rightharpoonup> mod_class" where
  "mod_types =
     [''BPSK'' \<mapsto> ModulationBase, ''QPSK'' \<mapsto> QPSKModulation, ''FSK'' \<mapsto> FSKModulation]"

definition change_mod_type :: "string \<Rightarrow> app \<Rightarrow> exn + app" where
  "change_mod_type mod_name self =
     (let mod_class = (case mod_types mod_name of None \<Rightarrow> ModulationBase | Some c \<Rightarrow> c);
          self1 = self\<lparr>current_mod_obj := Some (new_modulation mod_class)\<rparr>
      in case current_mod_obj self1 of
           None \<Rightarrow> Inl AttributeError
         | Some obj \<Rightarrow>
             (case update obj of
                Inl err \<Rightarrow> Inl err
              | Inr obj' \<Rightarrow> Inr (self1\<lparr>current_mod_obj := Some obj'\<rparr>)))"

definition App_init :: "exn + app" where
  "App_init = change_mod_type ''BPSK'' \<lparr>selected_mod_type = ''BPSK'', current_mod_obj = None\<rparr>"

text \<open>
  The callbacks the event loop runs.  A write to the rate entry sets \<open>rate_var\<close> and
  runs the trace bound in \<open>change_mod_type\<close>, which calls \<open>update\<close> on the current
  object; the same for the deviation entry, which exists (and is traced) only when the
  object has the attribute.  Choosing an entry of the menu sets \<open>selected_mod_type\<close>
  and calls \<open>change_mod_type\<close> with the name.
\<close>

datatype event = WriteRate string | WriteFreqDev string | SelectMod string

inductive step :: "app \<Rightarrow> event \<Rightarrow> app \<Rightarrow> bool" where
  write_rate:
    "current_mod_obj a = Some obj \<Longrightarrow> update (obj\<lparr>rate_var := s\<rparr>) = Inr obj' \<Longrightarrow>
     step a (WriteRate s) (a\<lparr>current_mod_obj := Some obj'\<rparr>)"
| write_freq_dev:
    "current_mod_obj a = Some obj \<Longrightarrow> freq_dev_var obj = Some old \<Longrightarrow>
     update (obj\<lparr>freq_dev_var := Some s\<rparr>) = Inr obj' \<Longrightarrow>
     step a (WriteFreqDev s) (a\<lparr>current_mod_obj := Some obj'\<rparr>)"
| select_mod:
    "change_mod_type name (a\<lparr>selected_mod_type := name\<rparr>) = Inr a' \<Longrightarrow>
     step a (SelectMod name) a'"

inductive reachable :: "app \<Rightarrow> bool" where
  init: "App_init = Inr a \<Longrightarrow> reachable a"
| next_state: "reachable a \<Longrightarrow> step a ev a' \<Longrightarrow> reachable a'"

section \<open>Properties of the float model\<close>

text \<open>
  The rounding function returns binary64 values only, it returns a binary64 value
  unchanged, and so does the addition of \<open>+0.0\<close>, but for the sign of a negative zero.
\<close>

lemma bit_length_bounds:
  "0 < n \<Longrightarrow> 0 < bit_length n \<and> 2 ^ nat (bit_length n - 1) \<le> n \<and> n < 2 ^ nat (bit_length n)"
proof (induction n rule: bit_length.induct)
  case (1 n)
  show ?case
  proof (cases "n = 1")
    case True
    have "bit_length 1 = 1" by (simp add: bit_length.simps)
    with True show ?thesis by simp
  next
    case False
    with "1.prems" have h: "0 < n div 2" by simp
    from "1.prems" have nle: "\<not> n \<le> 0" by simp
    from "1.IH" [OF nle h]
    have ih: "0 < bit_length (n div 2)"
      "2 ^ nat (bit_length (n div 2) - 1) \<le> n div 2"
      "n div 2 < 2 ^ nat (bit_length (n div 2))" by simp_all
    have bl: "bit_length n = 1 + bit_length (n div 2)"
      using nle by (subst bit_length.simps) simp
    have e1: "nat (bit_length n - 1) = Suc (nat (bit_length (n div 2) - 1))"
      using bl ih(1) by simp
    have e2: "nat (bit_length n) = Suc (nat (bit_length (n div 2)))"
      using bl ih(1) by simp
    have "2 * 2 ^ nat (bit_length (n div 2) - 1) \<le> n" using ih(2) by simp
    moreover have "n < 2 * 2 ^ nat (bit_length (n div 2))" using ih(3) by simp
    ultimately show ?thesis using bl ih(1) e1 e2 by simp
  qed
qed

lemma bit_length_unique:
  assumes "2 ^ k \<le> n" and "n < 2 ^ Suc k"
  shows "bit_length n = int k + 1"
proof -
  have pos: "0 < n" using assms(1) by (smt (verit) zero_less_power)
  note b = bit_length_bounds [OF pos]
  let ?j = "nat (bit_length n - 1)"
  from b have bp: "0 < bit_length n" by simp
  have bj: "bit_length n = int ?j + 1" using bp by simp
  have nj: "nat (bit_length n) = Suc ?j" using bp by arith
  have "(2::int) ^ ?j < 2 ^ Suc k" using b assms(2) by linarith
  then have "?j < Suc k" by (simp only: power_strict_increasing_iff [of 2] one_less_numeral_iff semiring_norm)
  moreover have "(2::int) ^ k < 2 ^ Suc ?j" using b assms(1) nj by (metis le_less_trans)
  then have "k < Suc ?j" by (simp only: power_strict_increasing_iff [of 2] one_less_numeral_iff semiring_norm)
  ultimately have "?j = k" by simp
  with bj show ?thesis by simp
qed

lemma bit_length_shift:
  assumes "0 < m"
  shows "bit_length (m * 2 ^ j) = bit_length m + int j"
proof -
  note b = bit_length_bounds [OF assms]
  let ?i = "nat (bit_length m - 1)"
  from b have bp: "0 < bit_length m" by simp
  have bi: "bit_length m = int ?i + 1" using bp by simp
  have ni: "nat (bit_length m) = Suc ?i" using bp by arith
  have "2 ^ (?i + j) \<le> m * 2 ^ j" using b by (simp add: power_add)
  moreover have "m * 2 ^ j < 2 ^ Suc (?i + j)"
    using b ni by (simp add: power_add)
  ultimately have "bit_length (m * 2 ^ j) = int (?i + j) + 1" by (rule bit_length_unique)
  with bi show ?thesis by simp
qed

lemma round_half_even_exact: "0 < d \<Longrightarrow> round_half_even (m * d) d = m"
  by (simp add: round_half_even_def)

lemma round_half_even_lower:
  assumes "0 < d" and "a * d \<le> n"
  shows "a \<le> round_half_even n d"
proof -
  have "a \<le> n div d" using zdiv_mono1 [OF assms(2) assms(1)] assms(1) by simp
  then show ?thesis by (simp add: round_half_even_def Let_def)
qed

lemma round_half_even_upper:
  assumes "0 < d" and "n \<le> b * d"
  shows "round_half_even n d \<le> b"
proof (cases "n div d = b")
  case True
  have "n = (n div d) * d + n mod d" by simp
  with True assms have "n mod d \<le> 0" by (metis add_le_same_cancel1)
  moreover have "0 \<le> n mod d" using assms(1) by simp
  ultimately have "n mod d = 0" by simp
  with True assms(1) show ?thesis by (simp add: round_half_even_def)
next
  case False
  have "n div d \<le> b" using assms by (metis div_mult_self_is_m zdiv_mono1 nonzero_mult_div_cancel_right less_irrefl)
  with False have "n div d + 1 \<le> b" by simp
  then show ?thesis by (simp add: round_half_even_def Let_def)
qed


lemma bit_length_real:
  assumes "0 < n"
  shows "2 powi (bit_length n - 1) \<le> real_of_int n" and "real_of_int n < 2 powi (bit_length n)"
proof -
  note b = bit_length_bounds [OF assms]
  have "real_of_int (2 ^ nat (bit_length n - 1)) \<le> real_of_int n"
    using b by (simp only: of_int_le_iff)
  then show "2 powi (bit_length n - 1) \<le> real_of_int n"
    using b by (simp add: power_int_nonneg_exp)
  have "real_of_int n < real_of_int (2 ^ nat (bit_length n))"
    using b by (simp only: of_int_less_iff)
  then show "real_of_int n < 2 powi (bit_length n)"
    using b by (simp add: power_int_nonneg_exp)
qed

lemma floor_log2_test:
  assumes "0 < d"
  shows "(if 0 \<le> b then d * 2 ^ nat b \<le> n else d \<le> n * 2 ^ nat (- b))
           \<longleftrightarrow> 2 powi b * real_of_int d \<le> real_of_int n"
proof (cases "0 \<le> b")
  case True
  have "(d * 2 ^ nat b \<le> n) = (real_of_int (d * 2 ^ nat b) \<le> real_of_int n)"
    by (simp only: of_int_le_iff)
  also have "\<dots> = (2 powi b * real_of_int d \<le> real_of_int n)"
    using True by (simp add: power_int_nonneg_exp mult.commute)
  finally show ?thesis using True by simp
next
  case False
  then have nb: "0 \<le> - b" by simp
  have pb: "2 powi b = 1 / (2::real) ^ nat (- b)"
    using power_int_minus_divide [of "2::real" "- b"] nb by (simp add: power_int_nonneg_exp)
  have "(d \<le> n * 2 ^ nat (- b)) = (real_of_int d \<le> real_of_int (n * 2 ^ nat (- b)))"
    by (simp only: of_int_le_iff)
  also have "\<dots> = (2 powi b * real_of_int d \<le> real_of_int n)"
    by (simp add: pb field_simps)
  finally show ?thesis using False by simp
qed

lemma floor_log2_bounds:
  assumes "0 < n" and "0 < d"
  shows "2 powi (floor_log2 n d) * real_of_int d \<le> real_of_int n"
    and "real_of_int n < 2 powi (floor_log2 n d + 1) * real_of_int d"
proof -
  define b where "b = bit_length n - bit_length d"
  have dp: "0 < real_of_int d" using assms(2) by simp
  note bn = bit_length_real [OF assms(1)]
  note bd = bit_length_real [OF assms(2)]
  have two: "(2::real) \<noteq> 0" by simp
  have up: "real_of_int n < 2 powi (b + 1) * real_of_int d"
  proof -
    have "2 powi (b + 1) * 2 powi (bit_length d - 1) = (2::real) powi (bit_length n)"
      unfolding b_def by (subst power_int_add [symmetric]) simp_all
    moreover have "2 powi (b + 1) * 2 powi (bit_length d - 1) \<le> 2 powi (b + 1) * real_of_int d"
      using bd(1) by (intro mult_left_mono) simp_all
    ultimately show ?thesis using bn(2) by linarith
  qed
  have low: "2 powi (b - 1) * real_of_int d \<le> real_of_int n"
  proof -
    have "2 powi (b - 1) * 2 powi (bit_length d) = (2::real) powi (bit_length n - 1)"
      unfolding b_def by (subst power_int_add [symmetric]) simp_all
    moreover have "2 powi (b - 1) * real_of_int d \<le> 2 powi (b - 1) * 2 powi (bit_length d)"
      using bd(2) by (intro mult_left_mono) simp_all
    ultimately show ?thesis using bn(1) by linarith
  qed
  have fl: "floor_log2 n d = (if 2 powi b * real_of_int d \<le> real_of_int n then b else b - 1)"
    unfolding floor_log2_def Let_def b_def [symmetric]
    by (simp only: floor_log2_test [OF assms(2)])
  show "2 powi (floor_log2 n d) * real_of_int d \<le> real_of_int n"
    using low by (simp add: fl)
  show "real_of_int n < 2 powi (floor_log2 n d + 1) * real_of_int d"
    using up by (auto simp: fl)
qed

lemma round_to_double_is_double:
  assumes "0 \<le> n" and "0 < d"
  shows "is_double (round_to_double s n d x)"
proof (cases "n = 0")
  case True
  then show ?thesis by (simp add: round_to_double_def is_double_def)
next
  case False
  with assms have np: "0 < n" by simp
  define f where "f = floor_log2 n d"
  define e where "e = max (x + f - 52) (- 1074)"
  define k where "k = x - e"
  define N where "N = (if 0 \<le> k then n * 2 ^ nat k else n)"
  define D where "D = (if 0 \<le> k then d else d * 2 ^ nat (- k))"
  define m where "m = (if 0 \<le> k then round_half_even (n * 2 ^ nat k) d
                       else round_half_even n (d * 2 ^ nat (- k)))"
  define P where "P = (2::real) powi k"
  have mND: "m = round_half_even N D" by (simp add: m_def N_def D_def)
  have rd: "round_to_double s n d x =
      (if 971 < (if m = 2 ^ 53 then e + 1 else e) then Infinity s
       else Finite s (if m = 2 ^ 53 then 2 ^ 52 else m) (if m = 2 ^ 53 then e + 1 else e))"
    unfolding round_to_double_def Let_def m_def k_def e_def f_def
    using False by (simp only: if_False)
  have Dp: "0 < D" using assms(2) by (simp add: D_def)
  have Pp: "0 < P" by (simp add: P_def)
  have dp: "0 < real_of_int d" using assms(2) by simp
  have N0: "0 \<le> N" using assms(1) by (simp add: N_def)
  have eq: "real_of_int N * real_of_int d = real_of_int n * P * real_of_int D"
  proof (cases "0 \<le> k")
    case True
    then show ?thesis by (simp add: N_def D_def P_def power_int_nonneg_exp)
  next
    case False
    then have nk: "0 \<le> - k" by simp
    have "P = 1 / (2::real) ^ nat (- k)"
      unfolding P_def using power_int_minus_divide [of "2::real" "- k"] nk
      by (simp add: power_int_nonneg_exp)
    with False show ?thesis by (simp add: N_def D_def)
  qed
  note fb = floor_log2_bounds [OF np assms(2), folded f_def]
  have el: "- 1074 \<le> e" by (simp add: e_def)
  have kle: "f + 1 + k \<le> 53" unfolding k_def e_def by simp
  have PD: "0 < P * real_of_int D" using Pp Dp by simp
  have m0: "0 \<le> m" unfolding mND using Dp N0 by (intro round_half_even_lower) simp_all
  have mu: "m \<le> 2 ^ 53"
  proof -
    have "real_of_int n * (P * real_of_int D) < (2 powi (f + 1) * real_of_int d) * (P * real_of_int D)"
      using fb(2) PD by (rule mult_strict_right_mono)
    then have "real_of_int N * real_of_int d < (2 powi (f + 1) * P * real_of_int D) * real_of_int d"
      by (simp add: eq mult_ac)
    then have "real_of_int N < 2 powi (f + 1) * P * real_of_int D"
      using dp by (simp only: mult_less_cancel_right_pos)
    moreover have "2 powi (f + 1) * P = (2::real) powi (f + 1 + k)"
      unfolding P_def by (subst power_int_add [symmetric]) simp_all
    moreover have "(2::real) powi (f + 1 + k) \<le> 2 powi 53"
      using kle by (intro power_int_increasing) simp_all
    then have "(2::real) powi (f + 1 + k) * real_of_int D \<le> 2 powi 53 * real_of_int D"
      using Dp by (intro mult_right_mono) simp_all
    ultimately have "real_of_int N < 2 powi 53 * real_of_int D" by simp
    then have "real_of_int N < real_of_int (2 ^ 53 * D)" by simp
    then have "N < 2 ^ 53 * D" by (simp only: of_int_less_iff)
    then show ?thesis unfolding mND using Dp by (intro round_half_even_upper) simp_all
  qed
  have ml: "2 ^ 52 \<le> m" if "e \<noteq> - 1074"
  proof -
    from that have "e = x + f - 52" by (simp add: e_def max_def split: if_splits)
    then have kf: "f + k = 52" by (simp add: k_def)
    have "(2 powi f * real_of_int d) * (P * real_of_int D) \<le> real_of_int n * (P * real_of_int D)"
      using fb(1) PD by (intro mult_right_mono) simp_all
    then have "(2 powi f * P * real_of_int D) * real_of_int d \<le> real_of_int N * real_of_int d"
      by (simp add: eq mult_ac)
    then have "2 powi f * P * real_of_int D \<le> real_of_int N"
      using dp by (simp only: mult_le_cancel_right_pos)
    moreover have "2 powi f * P = (2::real) powi (f + k)"
      unfolding P_def by (subst power_int_add [symmetric]) simp_all
    ultimately have "2 powi 52 * real_of_int D \<le> real_of_int N" by (simp add: kf)
    then have "real_of_int (2 ^ 52 * D) \<le> real_of_int N" by simp
    then have "2 ^ 52 * D \<le> N" by (simp only: of_int_le_iff)
    then show ?thesis unfolding mND using Dp by (intro round_half_even_lower) simp_all
  qed
  show ?thesis
  proof (cases "e = - 1074")
    case True
    with m0 mu show ?thesis unfolding rd is_double_def by auto
  next
    case False
    with ml have "2 ^ 52 \<le> m" by simp
    with mu el show ?thesis unfolding rd is_double_def by auto
  qed
qed

lemma round_to_double_exact:
  assumes "is_double (Finite s m e)" and "0 < m"
  shows "round_to_double s (m * 2 ^ nat (e + 1074)) 1 (- 1074) = Finite s m e"
proof -
  define j where "j = nat (e + 1074)"
  from assms(1) have el: "- 1074 \<le> e" and eu: "e \<le> 971" and mu: "m < 2 ^ 53"
    by (auto simp: is_double_def)
  have je: "int j = e + 1074" using el by (simp add: j_def)
  have n0: "m * 2 ^ j \<noteq> 0" using assms(2) by simp
  have np: "0 < m * 2 ^ j" using assms(2) by simp
  have b1: "bit_length 1 = 1" by (simp add: bit_length.simps)
  have bs: "bit_length (m * 2 ^ j) = bit_length m + int j" using assms(2) by (rule bit_length_shift)
  note bb = bit_length_bounds [OF np]
  have fl: "floor_log2 (m * 2 ^ j) 1 = bit_length m + int j - 1"
    using bb by (simp add: floor_log2_def Let_def b1 bs)
  have emax: "max (- 1074 + (bit_length m + int j - 1) - 52) (- 1074) = e"
  proof (cases "2 ^ 52 \<le> m")
    case True
    with mu have "bit_length m = int 52 + 1" by (intro bit_length_unique) simp_all
    then show ?thesis using je el by simp
  next
    case False
    with assms(1) have e0: "e = - 1074" by (auto simp: is_double_def)
    note bm = bit_length_bounds [OF assms(2)]
    have "bit_length m \<le> 52"
    proof (rule ccontr)
      assume "\<not> bit_length m \<le> 52"
      then have "52 \<le> nat (bit_length m - 1)" by simp
      then have "(2::int) ^ 52 \<le> 2 ^ nat (bit_length m - 1)"
        by (intro power_increasing) simp_all
      with bm False show False by linarith
    qed
    then show ?thesis using e0 je by simp
  qed
  have kk: "- 1074 - e = - int j" using je by simp
  have m1: "(if 0 \<le> - int j then round_half_even (m * 2 ^ j * 2 ^ nat (- int j)) 1
             else round_half_even (m * 2 ^ j) (1 * 2 ^ nat (- (- int j)))) = m"
  proof (cases "j = 0")
    case True
    then show ?thesis using round_half_even_exact [of 1 m] by simp
  next
    case False
    then show ?thesis using round_half_even_exact [of "2 ^ j" m] by simp
  qed
  have "round_to_double s (m * 2 ^ j) 1 (- 1074) =
          (if 971 < (if m = 2 ^ 53 then e + 1 else e) then Infinity s
           else Finite s (if m = 2 ^ 53 then 2 ^ 52 else m) (if m = 2 ^ 53 then e + 1 else e))"
    unfolding round_to_double_def Let_def
    by (simp only: n0 if_False fl emax kk m1)
  also have "\<dots> = Finite s m e" using mu eu by simp
  finally show ?thesis unfolding j_def .
qed

lemma float_add_zero:
  assumes "is_double x"
  shows "float_add x (Finite False 0 (- 1074)) =
           (if x = Finite True 0 (- 1074) then Finite False 0 (- 1074) else x)"
proof (cases x)
  case (Finite s m e)
  with assms have el: "- 1074 \<le> e" and m0: "0 \<le> m" by (auto simp: is_double_def)
  show ?thesis
  proof (cases "m = 0")
    case True
    with assms Finite have "e = - 1074" by (auto simp: is_double_def)
    with True Finite show ?thesis by (cases s) simp_all
  next
    case False
    with m0 have mp: "0 < m" by simp
    have g: "min e (- 1074) = - 1074" using el by simp
    have ex: "round_to_double s (m * 2 ^ nat (e + 1074)) 1 (- 1074) = Finite s m e"
      using assms mp unfolding Finite by (rule round_to_double_exact)
    have pp: "0 < m * 2 ^ nat (e + 1074)" using mp by simp
    have nz: "(if s then - m else m) * 2 ^ nat (e + 1074) \<noteq> 0" using mp by simp
    have sg: "((if s then - m else m) * 2 ^ nat (e + 1074) < 0) = s"
      using pp by (cases s) (simp_all add: not_less)
    have ab: "\<bar>(if s then - m else m) * 2 ^ nat (e + 1074)\<bar> = m * 2 ^ nat (e + 1074)"
      using pp by (cases s) simp_all
    have "float_add (Finite s m e) (Finite False 0 (- 1074)) =
            round_to_double s (m * 2 ^ nat (e + 1074)) 1 (- 1074)"
      unfolding float_add.simps Let_def g
      using nz sg ab by simp
    with ex Finite mp show ?thesis by simp
  qed
next
  case (Infinity s)
  then show ?thesis by simp
next
  case NaN
  then show ?thesis by simp
qed

lemma digits_value_nonneg:
  assumes "list_all Py_ISDIGIT ds"
  shows "0 \<le> digits_value ds"
proof -
  have "0 \<le> a \<Longrightarrow> list_all Py_ISDIGIT ds \<Longrightarrow> 0 \<le> foldl (\<lambda>a c. 10 * a + digit_value c) a ds" for a
  proof (induction ds arbitrary: a)
    case Nil
    then show ?case by simp
  next
    case (Cons c cs)
    from Cons.prems(2) have "Py_ISDIGIT c" by simp
    then have "0 \<le> digit_value c" by (auto simp: Py_ISDIGIT_def digit_value_def)
    with Cons.prems(1) have "0 \<le> 10 * a + digit_value c" by simp
    with Cons show ?case by simp
  qed
  with assms show ?thesis by (simp add: digits_value_def)
qed

lemma decimal_to_double_is_double: "0 \<le> D \<Longrightarrow> is_double (decimal_to_double neg D k)"
  by (simp add: decimal_to_double_def round_to_double_is_double)

lemma list_all_takeWhile: "list_all P (takeWhile P xs)"
  by (induction xs) simp_all

lemma digits_value_takeWhile:
  "0 \<le> digits_value (takeWhile Py_ISDIGIT a @ takeWhile Py_ISDIGIT b)"
  "0 \<le> digits_value (takeWhile Py_ISDIGIT a)"
  by (rule digits_value_nonneg, simp add: list_all_takeWhile)+

lemma dg_strtod_is_double:
  assumes "dg_strtod s = Some x"
  shows "is_double x"
  using assms
  by (auto simp: dg_strtod_def Let_def decimal_to_double_is_double digits_value_takeWhile
      split: prod.splits if_splits list.splits)

lemma py_float_is_double:
  assumes "py_float s = Inr x"
  shows "is_double x"
proof -
  have inner: "float_from_string_inner u = Inr x \<Longrightarrow> is_double x" for u
    by (auto simp: float_from_string_inner_def parse_inf_or_nan_def Let_def is_double_def
        split: option.splits if_splits prod.splits dest: dg_strtod_is_double)
  from assms show ?thesis
    by (auto simp: py_float_def string_to_number_with_underscores_def
        split: if_splits option.splits dest: inner)
qed

subsection \<open>White space around a number\<close>







subsection \<open>Signs, exponents and the special values\<close>


















section \<open>Evaluation of the constants of the source\<close>

lemma float_literal_1000: "float_literal 1000 = Finite False 8796093022208000 (- 43)"
  by code_simp

lemma float_literal_2: "float_literal 2 = Finite False 4503599627370496 (- 51)"
  by code_simp

lemma int_to_float_0: "int_to_float 0 = Inr (Finite False 0 (- 1074))"
  by code_simp

lemma truediv_1000: "float_truediv y (float_literal 1000) = Inr (float_div y (float_literal 1000))"
  by (simp add: float_truediv_def float_literal_1000 is_zero_def)

lemma num_truediv_zero_1000:
  "num_truediv (PyInt 0) (float_literal 1000) = Inr (Finite False 0 (- 1074))"
  by (simp add: int_to_float_0 float_truediv_def is_zero_def float_literal_1000
      round_to_double_def)

lemma py_float_error: "py_float s = Inl err \<Longrightarrow> err = ValueError"
  by (auto simp: py_float_def string_to_number_with_underscores_def float_from_string_inner_def
      split: if_splits option.splits)

lemma not_invalid_input: "xs @ '' bits/s'' \<noteq> ''Invalid input''"
proof
  assume "xs @ '' bits/s'' = ''Invalid input''"
  then have "last (xs @ '' bits/s'') = last ''Invalid input''" by simp
  then show False by simp
qed

lemma FSK_calc_cases:
  assumes "freq_dev_var self = Some d"
  shows "FSKModulation_calculate_data_rate self =
     (case py_float (rate_var self) of
        Inl err \<Rightarrow> Inr ''Invalid input''
      | Inr x \<Rightarrow>
          (case py_float d of
             Inl err \<Rightarrow> Inr (format_2f (float_add x (Finite False 0 (- 1074))) @ '' bits/s'')
           | Inr y \<Rightarrow> Inr (format_2f (float_add x (float_div y (float_literal 1000))) @ '' bits/s'')))"
proof (cases "py_float (rate_var self)")
  case (Inl err)
  then have "err = ValueError" by (rule py_float_error)
  with Inl show ?thesis by (simp add: FSKModulation_calculate_data_rate_def)
next
  case (Inr x)
  show ?thesis
  proof (cases "py_float d")
    case (Inl err)
    then have "err = ValueError" by (rule py_float_error)
    with Inl Inr assms show ?thesis
      by (simp add: FSKModulation_calculate_data_rate_def FSKModulation_freq_dev_def
          num_truediv_zero_1000 del: num_truediv.simps)
  next
    case (Inr y)
    with \<open>py_float (rate_var self) = Inr x\<close> assms show ?thesis
      by (simp add: FSKModulation_calculate_data_rate_def FSKModulation_freq_dev_def truediv_1000)
  qed
qed

lemma Base_calc_cases:
  "ModulationBase_calculate_data_rate self =
     (case py_float (rate_var self) of
        Inl err \<Rightarrow> Inr ''Invalid input''
      | Inr x \<Rightarrow> Inr (format_2f x @ '' bits/s''))"
proof (cases "py_float (rate_var self)")
  case (Inl err)
  then have "err = ValueError" by (rule py_float_error)
  with Inl show ?thesis by (simp add: ModulationBase_calculate_data_rate_def)
next
  case (Inr x)
  then show ?thesis by (simp add: ModulationBase_calculate_data_rate_def)
qed

lemma QPSK_calc_cases:
  "QPSKModulation_calculate_data_rate self =
     (case py_float (rate_var self) of
        Inl err \<Rightarrow> Inr ''Invalid input''
      | Inr x \<Rightarrow> Inr (format_2f (float_mul x (float_literal 2)) @ '' bits/s''))"
proof (cases "py_float (rate_var self)")
  case (Inl err)
  then have "err = ValueError" by (rule py_float_error)
  with Inl show ?thesis by (simp add: QPSKModulation_calculate_data_rate_def)
next
  case (Inr x)
  then show ?thesis by (simp add: QPSKModulation_calculate_data_rate_def)
qed


text \<open>
  Claim C1.  For an FSK object whose rate text and deviation text both convert with
  \<^verbatim>\<open>float()\<close>, to \<open>x\<close> and \<open>y\<close>, \<open>calculate_data_rate\<close> returns the float
  \<open>x + y / 1000.0\<close> formatted with two decimals, followed by \<^verbatim>\<open> bits/s\<close>; the division
  never raises.  At \<^verbatim>\<open>100\<close> and \<^verbatim>\<open>500\<close> the result is \<^verbatim>\<open>100.50 bits/s\<close>.
\<close>

theorem FSK_data_rate_both_parse:
  assumes "cls self = FSKModulation"
    and "py_float (rate_var self) = Inr x"
    and "freq_dev_var self = Some d"
    and "py_float d = Inr y"
  shows "calculate_data_rate self =
           Inr (format_2f (float_add x (float_div y (float_literal 1000))) @ '' bits/s'')"
  using assms by (simp add: calculate_data_rate_def FSK_calc_cases)

theorem FSK_data_rate_both_parse_witness:
  "calculate_data_rate ((new_modulation FSKModulation)\<lparr>rate_var := ''100'', freq_dev_var := Some ''500''\<rparr>)
     = Inr ''100.50 bits/s''"
proof -
  let ?self = "(new_modulation FSKModulation)\<lparr>rate_var := ''100'', freq_dev_var := Some ''500''\<rparr>"
  have c: "cls ?self = FSKModulation" by code_simp
  have r: "py_float (rate_var ?self) = Inr (Finite False 7036874417766400 (- 46))" by code_simp
  have d: "freq_dev_var ?self = Some ''500''" by code_simp
  have y: "py_float ''500'' = Inr (Finite False 8796093022208000 (- 44))" by code_simp
  have f: "format_2f (float_add (Finite False 7036874417766400 (- 46))
             (float_div (Finite False 8796093022208000 (- 44)) (float_literal 1000))) @ '' bits/s''
           = ''100.50 bits/s''" by code_simp
  show ?thesis using FSK_data_rate_both_parse [OF c r d y] f by simp
qed

text \<open>
  Claim C2, as amended.  For an FSK object: when the rate text does not convert, the
  result is \<^verbatim>\<open>Invalid input\<close> whatever the deviation text is; when the rate text converts
  to \<open>x\<close> and the deviation text does not convert, the deviation counts as 0 and the
  result is \<open>x + 0.0\<close> formatted, which is \<open>x\<close> formatted unless \<open>x\<close> is the negative
  zero, where it is \<^verbatim>\<open>0.00 bits/s\<close>.
\<close>

theorem FSK_asymmetric_error_policy:
  assumes "cls self = FSKModulation" and "freq_dev_var self = Some d"
  shows "(py_float (rate_var self) = Inl ValueError \<longrightarrow>
            calculate_data_rate self = Inr ''Invalid input'') \<and>
         (\<forall>x. py_float (rate_var self) = Inr x \<and> py_float d = Inl ValueError \<longrightarrow>
            calculate_data_rate self =
              Inr (format_2f (if x = Finite True 0 (- 1074) then Finite False 0 (- 1074) else x)
                   @ '' bits/s''))"
proof -
  have "calculate_data_rate self =
          Inr (format_2f (if x = Finite True 0 (- 1074) then Finite False 0 (- 1074) else x)
               @ '' bits/s'')"
    if r: "py_float (rate_var self) = Inr x" and e: "py_float d = Inl ValueError" for x
  proof -
    from r have "is_double x" by (rule py_float_is_double)
    then have "float_add x (Finite False 0 (- 1074)) =
        (if x = Finite True 0 (- 1074) then Finite False 0 (- 1074) else x)"
      by (rule float_add_zero)
    with r e assms show ?thesis
      by (simp add: calculate_data_rate_def FSK_calc_cases)
  qed
  moreover have "calculate_data_rate self = Inr ''Invalid input''"
    if "py_float (rate_var self) = Inl ValueError"
    using that assms by (simp add: calculate_data_rate_def FSK_calc_cases)
  ultimately show ?thesis by blast
qed

theorem FSK_asymmetric_error_policy_witness:
  "calculate_data_rate
     ((new_modulation FSKModulation)\<lparr>rate_var := ''100'', freq_dev_var := Some ''abc''\<rparr>)
     = Inr ''100.00 bits/s'' \<and>
   calculate_data_rate
     ((new_modulation FSKModulation)\<lparr>rate_var := ''abc'', freq_dev_var := Some ''7''\<rparr>)
     = Inr ''Invalid input''"
proof -
  let ?a = "(new_modulation FSKModulation)\<lparr>rate_var := ''100'', freq_dev_var := Some ''abc''\<rparr>"
  let ?b = "(new_modulation FSKModulation)\<lparr>rate_var := ''abc'', freq_dev_var := Some ''7''\<rparr>"
  have ca: "cls ?a = FSKModulation" by code_simp
  have da: "freq_dev_var ?a = Some ''abc''" by code_simp
  have ra: "py_float (rate_var ?a) = Inr (Finite False 7036874417766400 (- 46))" by code_simp
  have ea: "py_float ''abc'' = Inl ValueError" by code_simp
  have fa: "format_2f (if Finite False 7036874417766400 (- 46) = Finite True 0 (- 1074)
                       then Finite False 0 (- 1074) else Finite False 7036874417766400 (- 46))
              @ '' bits/s'' = ''100.00 bits/s''" by code_simp
  have cb: "cls ?b = FSKModulation" by code_simp
  have db: "freq_dev_var ?b = Some ''7''" by code_simp
  have rb: "py_float (rate_var ?b) = Inl ValueError" by code_simp
  from FSK_asymmetric_error_policy [OF ca da] ra ea fa
  have "calculate_data_rate ?a = Inr ''100.00 bits/s''" by simp
  moreover from FSK_asymmetric_error_policy [OF cb db] rb
  have "calculate_data_rate ?b = Inr ''Invalid input''" by simp
  ultimately show ?thesis by simp
qed

text \<open>
  Claim C2 as it is written fails at the rate text \<^verbatim>\<open>-0\<close> with a deviation text that
  does not convert: the rate converts to the negative zero, whose format is
  \<^verbatim>\<open>-0.00\<close>, and the FSK result is \<^verbatim>\<open>0.00 bits/s\<close>.
\<close>

theorem FSK_negative_zero_counterexample:
  "py_float ''-0'' = Inr (Finite True 0 (- 1074)) \<and>
   py_float ''abc'' = Inl ValueError \<and>
   calculate_data_rate
     ((new_modulation FSKModulation)\<lparr>rate_var := ''-0'', freq_dev_var := Some ''abc''\<rparr>)
     = Inr ''0.00 bits/s'' \<and>
   format_2f (Finite True 0 (- 1074)) @ '' bits/s'' = ''-0.00 bits/s'' \<and>
   calculate_data_rate
     ((new_modulation FSKModulation)\<lparr>rate_var := ''-0'', freq_dev_var := Some ''abc''\<rparr>)
     \<noteq> Inr (format_2f (Finite True 0 (- 1074)) @ '' bits/s'')"
  by code_simp

text \<open>
  Claim C3.  For an object of the base class (BPSK) whose rate text converts with
  \<^verbatim>\<open>float()\<close> to \<open>x\<close>, \<open>calculate_data_rate\<close> returns \<open>x\<close> itself formatted with two
  decimals, followed by \<^verbatim>\<open> bits/s\<close>.  At \<^verbatim>\<open>100\<close> the result is \<^verbatim>\<open>100.00 bits/s\<close>.
\<close>

theorem BPSK_data_rate_parse:
  assumes "cls self = ModulationBase" and "py_float (rate_var self) = Inr x"
  shows "calculate_data_rate self = Inr (format_2f x @ '' bits/s'')"
  using assms by (simp add: calculate_data_rate_def Base_calc_cases)

theorem BPSK_data_rate_parse_witness:
  "calculate_data_rate ((new_modulation ModulationBase)\<lparr>rate_var := ''100''\<rparr>) = Inr ''100.00 bits/s''"
proof -
  let ?self = "(new_modulation ModulationBase)\<lparr>rate_var := ''100''\<rparr>"
  have c: "cls ?self = ModulationBase" by code_simp
  have r: "py_float (rate_var ?self) = Inr (Finite False 7036874417766400 (- 46))" by code_simp
  have f: "format_2f (Finite False 7036874417766400 (- 46)) @ '' bits/s'' = ''100.00 bits/s''"
    by code_simp
  show ?thesis using BPSK_data_rate_parse [OF c r] f by simp
qed

text \<open>
  Claim C4.  For a QPSK object whose rate text converts with \<^verbatim>\<open>float()\<close> to \<open>x\<close>,
  \<open>calculate_data_rate\<close> returns the float \<open>x * 2.0\<close> formatted with two decimals,
  followed by \<^verbatim>\<open> bits/s\<close>.  At \<^verbatim>\<open>100\<close> the result is \<^verbatim>\<open>200.00 bits/s\<close>.
\<close>

theorem QPSK_data_rate_parse:
  assumes "cls self = QPSKModulation" and "py_float (rate_var self) = Inr x"
  shows "calculate_data_rate self = Inr (format_2f (float_mul x (float_literal 2)) @ '' bits/s'')"
  using assms by (simp add: calculate_data_rate_def QPSK_calc_cases)

theorem QPSK_data_rate_parse_witness:
  "calculate_data_rate ((new_modulation QPSKModulation)\<lparr>rate_var := ''100''\<rparr>) = Inr ''200.00 bits/s''"
proof -
  let ?self = "(new_modulation QPSKModulation)\<lparr>rate_var := ''100''\<rparr>"
  have c: "cls ?self = QPSKModulation" by code_simp
  have r: "py_float (rate_var ?self) = Inr (Finite False 7036874417766400 (- 46))" by code_simp
  have f: "format_2f (float_mul (Finite False 7036874417766400 (- 46)) (float_literal 2)) @ '' bits/s''
           = ''200.00 bits/s''"
    by code_simp
  show ?thesis using QPSK_data_rate_parse [OF c r] f by simp
qed

text \<open>
  Claim C5.  For an object of any of the three classes (an FSK object has its
  deviation variable) and any texts, \<open>calculate_data_rate\<close> returns a string and
  raises nothing; the string is \<^verbatim>\<open>Invalid input\<close> when the rate text does not convert,
  and only then.
\<close>

theorem calculate_data_rate_never_raises:
  assumes "cls self = FSKModulation \<longrightarrow> freq_dev_var self \<noteq> None"
  shows "(\<exists>text. calculate_data_rate self = Inr text) \<and>
         (py_float (rate_var self) = Inl ValueError \<longrightarrow>
            calculate_data_rate self = Inr ''Invalid input'') \<and>
         (calculate_data_rate self = Inr ''Invalid input'' \<longrightarrow>
            py_float (rate_var self) = Inl ValueError)"
proof (cases "cls self")
  case ModulationBase
  then show ?thesis
    by (auto simp: calculate_data_rate_def Base_calc_cases not_invalid_input
        split: sum.splits dest: py_float_error)
next
  case QPSKModulation
  then show ?thesis
    by (auto simp: calculate_data_rate_def QPSK_calc_cases not_invalid_input
        split: sum.splits dest: py_float_error)
next
  case FSKModulation
  with assms obtain d where "freq_dev_var self = Some d" by auto
  with FSKModulation show ?thesis
    by (auto simp: calculate_data_rate_def FSK_calc_cases not_invalid_input
        split: sum.splits dest: py_float_error)
qed


theorem calculate_data_rate_never_raises_witness:
  "calculate_data_rate ((new_modulation FSKModulation)\<lparr>rate_var := ''abc''\<rparr>) = Inr ''Invalid input''"
proof -
  let ?self = "(new_modulation FSKModulation)\<lparr>rate_var := ''abc''\<rparr>"
  have w: "cls ?self = FSKModulation \<longrightarrow> freq_dev_var ?self \<noteq> None" by code_simp
  have p: "py_float (rate_var ?self) = Inl ValueError" by code_simp
  show ?thesis using calculate_data_rate_never_raises [OF w] p by blast
qed

lemma calculate_data_rate_total:
  assumes "cls self = FSKModulation \<longrightarrow> freq_dev_var self \<noteq> None"
  shows "\<exists>text. calculate_data_rate self = Inr text"
proof (cases "cls self")
  case ModulationBase
  then show ?thesis
    by (simp add: calculate_data_rate_def Base_calc_cases split: sum.splits)
next
  case QPSKModulation
  then show ?thesis
    by (simp add: calculate_data_rate_def QPSK_calc_cases split: sum.splits)
next
  case FSKModulation
  with assms obtain d where "freq_dev_var self = Some d" by auto
  with FSKModulation show ?thesis
    by (simp add: calculate_data_rate_def FSK_calc_cases split: sum.splits)
qed

lemma calculate_data_rate_inputs:
  assumes "cls obj2 = cls obj" and "rate_var obj2 = rate_var obj"
    and "freq_dev_var obj2 = freq_dev_var obj"
  shows "calculate_data_rate obj2 = calculate_data_rate obj"
proof -
  have "ModulationBase_calculate_data_rate obj2 = ModulationBase_calculate_data_rate obj"
    unfolding ModulationBase_calculate_data_rate_def using assms by simp
  moreover have "QPSKModulation_calculate_data_rate obj2 = QPSKModulation_calculate_data_rate obj"
    unfolding QPSKModulation_calculate_data_rate_def using assms by simp
  moreover have "FSKModulation_freq_dev obj2 = FSKModulation_freq_dev obj"
    unfolding FSKModulation_freq_dev_def using assms by simp
  then have "FSKModulation_calculate_data_rate obj2 = FSKModulation_calculate_data_rate obj"
    unfolding FSKModulation_calculate_data_rate_def using assms by (simp split: sum.splits)
  ultimately show ?thesis
    unfolding calculate_data_rate_def using assms by (simp split: mod_class.splits)
qed

lemma get_diagram_inputs: "cls obj2 = cls obj \<Longrightarrow> get_diagram obj2 = get_diagram obj"
  by (simp add: get_diagram_def ModulationBase_get_diagram_def QPSKModulation_get_diagram_def
      FSKModulation_get_diagram_def split: mod_class.splits)

lemma update_fields:
  assumes "update obj = Inr obj'"
  shows "cls obj' = cls obj" and "rate_var obj' = rate_var obj"
    and "freq_dev_var obj' = freq_dev_var obj"
    and "calculate_data_rate obj = Inr (data_rate_var obj')"
    and "diagram_var obj' = get_diagram obj"
  using assms get_diagram_inputs [of "obj\<lparr>data_rate_var := t\<rparr>" obj for t]
  by (auto simp: update_def Let_def split: sum.splits)

lemma update_fresh:
  assumes "update obj = Inr obj'"
    and "cls obj2 = cls obj'" and "rate_var obj2 = rate_var obj'"
    and "freq_dev_var obj2 = freq_dev_var obj'"
  shows "calculate_data_rate obj2 = Inr (data_rate_var obj') \<and> get_diagram obj2 = diagram_var obj'"
proof -
  have "calculate_data_rate obj2 = calculate_data_rate obj"
    using assms by (intro calculate_data_rate_inputs) (simp_all add: update_fields)
  moreover have "get_diagram obj2 = get_diagram obj"
    using assms by (intro get_diagram_inputs) (simp add: update_fields)
  ultimately show ?thesis using update_fields [OF assms(1)] by simp
qed

lemma change_mod_type_result:
  assumes "change_mod_type name a = Inr a'"
  shows "\<exists>obj'. update (new_modulation (case mod_types name of None \<Rightarrow> ModulationBase | Some c \<Rightarrow> c))
            = Inr obj' \<and> current_mod_obj a' = Some obj'"
  using assms by (auto simp: change_mod_type_def Let_def split: sum.splits)

text \<open>
  Claim C6.  In every state the application reaches by edits of the rate entry, edits
  of the deviation entry and changes of the modulation type, the displayed data rate
  and diagram are what \<open>calculate_data_rate\<close> and \<open>get_diagram\<close> give for the class of
  the current object and the current texts of its entries, whatever the other fields
  of an object hold.
\<close>

theorem displayed_outputs_never_stale:
  assumes "reachable a"
  shows "\<exists>obj. current_mod_obj a = Some obj \<and>
           (\<forall>obj2. cls obj2 = cls obj \<and> rate_var obj2 = rate_var obj \<and>
                   freq_dev_var obj2 = freq_dev_var obj \<longrightarrow>
              calculate_data_rate obj2 = Inr (data_rate_var obj) \<and>
              get_diagram obj2 = diagram_var obj)"
  using assms
proof (induction rule: reachable.induct)
  case (init a)
  then obtain obj' where
    "update (new_modulation (case mod_types ''BPSK'' of None \<Rightarrow> ModulationBase | Some c \<Rightarrow> c)) = Inr obj'"
    "current_mod_obj a = Some obj'"
    using change_mod_type_result unfolding App_init_def by blast
  then show ?case using update_fresh by blast
next
  case (next_state a ev a')
  from next_state.hyps(2) show ?case
  proof (cases rule: step.cases)
    case (write_rate obj s obj')
    then show ?thesis using update_fresh by auto
  next
    case (write_freq_dev obj old s obj')
    then show ?thesis using update_fresh by auto
  next
    case (select_mod name)
    then obtain obj' where
      "update (new_modulation (case mod_types name of None \<Rightarrow> ModulationBase | Some c \<Rightarrow> c)) = Inr obj'"
      "current_mod_obj a' = Some obj'"
      using change_mod_type_result by blast
    then show ?thesis using update_fresh by blast
  qed
qed

theorem displayed_outputs_never_stale_witness:
  "\<exists>obj. current_mod_obj
     \<lparr>selected_mod_type = ''FSK'',
      current_mod_obj = Some \<lparr>cls = FSKModulation, current_row = 4, rate_var = ''0'',
        data_rate_var = ''0.50 bits/s'',
        diagram_var = ''FSK constellation diagram'' @ [CHR 0x0A] @ ''(not defined)'',
        freq_dev_var = Some ''500''\<rparr>\<rparr> = Some obj \<and>
     calculate_data_rate obj = Inr ''0.50 bits/s'' \<and> get_diagram obj = diagram_var obj"
proof -
  let ?o0 = "\<lparr>cls = ModulationBase, current_row = 3, rate_var = ''0'',
      data_rate_var = ''0.00 bits/s'', diagram_var = ''*                *'',
      freq_dev_var = None\<rparr>"
  let ?a0 = "\<lparr>selected_mod_type = ''BPSK'', current_mod_obj = Some ?o0\<rparr>"
  let ?o1 = "\<lparr>cls = FSKModulation, current_row = 4, rate_var = ''0'',
      data_rate_var = ''0.00 bits/s'',
      diagram_var = ''FSK constellation diagram'' @ [CHR 0x0A] @ ''(not defined)'',
      freq_dev_var = Some ''0''\<rparr>"
  let ?a1 = "\<lparr>selected_mod_type = ''FSK'', current_mod_obj = Some ?o1\<rparr>"
  let ?o2 = "\<lparr>cls = FSKModulation, current_row = 4, rate_var = ''0'',
      data_rate_var = ''0.50 bits/s'',
      diagram_var = ''FSK constellation diagram'' @ [CHR 0x0A] @ ''(not defined)'',
      freq_dev_var = Some ''500''\<rparr>"
  let ?a2 = "\<lparr>selected_mod_type = ''FSK'', current_mod_obj = Some ?o2\<rparr>"
  have "App_init = Inr ?a0" by code_simp
  then have r0: "reachable ?a0" by (rule reachable.init)
  have "change_mod_type ''FSK'' (?a0\<lparr>selected_mod_type := ''FSK''\<rparr>) = Inr ?a1" by code_simp
  then have "step ?a0 (SelectMod ''FSK'') ?a1" by (rule step.select_mod)
  with r0 have r1: "reachable ?a1" by (rule reachable.next_state)
  have u: "update (?o1\<lparr>freq_dev_var := Some ''500''\<rparr>) = Inr ?o2" by code_simp
  have "step ?a1 (WriteFreqDev ''500'') (?a1\<lparr>current_mod_obj := Some ?o2\<rparr>)"
    by (rule step.write_freq_dev [where obj = ?o1 and old = "''0''", OF _ _ u]) simp_all
  then have "step ?a1 (WriteFreqDev ''500'') ?a2" by simp
  with r1 have r2: "reachable ?a2" by (rule reachable.next_state)
  show ?thesis using displayed_outputs_never_stale [OF r2] by auto
qed

text \<open>
  Claim C7.  \<open>get_diagram\<close> does not depend on the rate and deviation texts, and
  returns for each class the string written in that class.
\<close>

theorem get_diagram_constant:
  "get_diagram (self\<lparr>rate_var := r, freq_dev_var := d\<rparr>) = get_diagram self \<and>
   get_diagram self =
     (case cls self of
        ModulationBase \<Rightarrow> ''*                *''
      | QPSKModulation \<Rightarrow> ''    *'' @ [CHR 0x0A] @ ''*       *'' @ [CHR 0x0A] @ ''    *''
      | FSKModulation \<Rightarrow> ''FSK constellation diagram'' @ [CHR 0x0A] @ ''(not defined)'')"
  by (simp add: get_diagram_def ModulationBase_get_diagram_def QPSKModulation_get_diagram_def
      FSKModulation_get_diagram_def split: mod_class.splits)

lemma new_modulation_inputs:
  "rate_var (new_modulation c) = ''0'' \<and>
   freq_dev_var (new_modulation c) = (if c = FSKModulation then Some ''0'' else None) \<and>
   cls (new_modulation c) = c"
  by (cases c)
    (simp_all add: new_modulation_def build_diagram_def build_widgets_def
      ModulationBase_build_widgets_def FSKModulation_build_widgets_def Let_def)

text \<open>
  The events are never stuck: in a reachable state an FSK object has its deviation
  variable, so no callback raises, and every edit and every change of type has a next
  state.
\<close>

lemma update_total:
  assumes "cls obj = FSKModulation \<longrightarrow> freq_dev_var obj \<noteq> None"
  shows "\<exists>obj'. update obj = Inr obj'"
proof -
  from calculate_data_rate_total [OF assms] obtain s where "calculate_data_rate obj = Inr s"
    by blast
  then show ?thesis by (simp add: update_def Let_def)
qed

lemma change_mod_type_total: "\<exists>a'. change_mod_type name a = Inr a'"
proof -
  define c where "c = (case mod_types name of None \<Rightarrow> ModulationBase | Some c \<Rightarrow> c)"
  have "cls (new_modulation c) = FSKModulation \<longrightarrow> freq_dev_var (new_modulation c) \<noteq> None"
    using new_modulation_inputs [of c] by auto
  then obtain obj' where "update (new_modulation c) = Inr obj'"
    using update_total by blast
  then show ?thesis by (simp add: change_mod_type_def c_def)
qed

lemma reachable_well_formed:
  assumes "reachable a"
  shows "\<exists>obj. current_mod_obj a = Some obj \<and>
           (cls obj = FSKModulation \<longrightarrow> freq_dev_var obj \<noteq> None)"
  using assms
proof (induction rule: reachable.induct)
  case (init a)
  then obtain obj' where u:
    "update (new_modulation (case mod_types ''BPSK'' of None \<Rightarrow> ModulationBase | Some c \<Rightarrow> c)) = Inr obj'"
    "current_mod_obj a = Some obj'"
    using change_mod_type_result unfolding App_init_def by blast
  then show ?case
    using update_fields(1,3) [OF u(1)] new_modulation_inputs by auto
next
  case (next_state a ev a')
  from next_state.hyps(2) show ?case
  proof (cases rule: step.cases)
    case (write_rate obj s obj')
    with next_state.IH update_fields(1,3) [OF write_rate(4)] show ?thesis by auto
  next
    case (write_freq_dev obj old s obj')
    with update_fields(3) [OF write_freq_dev(5)] show ?thesis by auto
  next
    case (select_mod name)
    then obtain obj' where u:
      "update (new_modulation (case mod_types name of None \<Rightarrow> ModulationBase | Some c \<Rightarrow> c)) = Inr obj'"
      "current_mod_obj a' = Some obj'"
      using change_mod_type_result by blast
    then show ?thesis
      using update_fields(1,3) [OF u(1)] new_modulation_inputs by auto
  qed
qed

lemma events_enabled:
  assumes "reachable a"
  shows "(\<exists>a'. step a (WriteRate s) a') \<and> (\<exists>a'. step a (SelectMod name) a') \<and>
         (\<forall>obj. current_mod_obj a = Some obj \<and> cls obj = FSKModulation \<longrightarrow>
            (\<exists>a'. step a (WriteFreqDev s) a'))"
proof -
  from reachable_well_formed [OF assms] obtain obj where
    o: "current_mod_obj a = Some obj" and
    wf: "cls obj = FSKModulation \<longrightarrow> freq_dev_var obj \<noteq> None" by blast
  have "cls (obj\<lparr>rate_var := s\<rparr>) = FSKModulation \<longrightarrow> freq_dev_var (obj\<lparr>rate_var := s\<rparr>) \<noteq> None"
    using wf by simp
  then obtain o1 where "update (obj\<lparr>rate_var := s\<rparr>) = Inr o1" using update_total by blast
  with o have 1: "\<exists>a'. step a (WriteRate s) a'" by (blast intro: step.write_rate)
  obtain a2 where "change_mod_type name (a\<lparr>selected_mod_type := name\<rparr>) = Inr a2"
    using change_mod_type_total by blast
  then have 2: "\<exists>a'. step a (SelectMod name) a'" by (blast intro: step.select_mod)
  have 3: "\<exists>a'. step a (WriteFreqDev s) a'" if "cls obj = FSKModulation"
  proof -
    from that wf obtain old where old: "freq_dev_var obj = Some old" by auto
    have "cls (obj\<lparr>freq_dev_var := Some s\<rparr>) = FSKModulation \<longrightarrow>
          freq_dev_var (obj\<lparr>freq_dev_var := Some s\<rparr>) \<noteq> None" by simp
    then obtain o3 where "update (obj\<lparr>freq_dev_var := Some s\<rparr>) = Inr o3"
      using update_total by blast
    with o old show ?thesis by (blast intro: step.write_freq_dev)
  qed
  from 1 2 3 o show ?thesis by auto
qed

text \<open>
  Claim C8.  The constructor of the application leaves the selection at \<^verbatim>\<open>BPSK\<close>, an
  object of the base class with the rate text \<^verbatim>\<open>0\<close>, and the data rate text
  \<^verbatim>\<open>0.00 bits/s\<close>, which is what the base class computes for \<^verbatim>\<open>0\<close>; every new
  object starts with each of its entries at \<^verbatim>\<open>0\<close>.
\<close>

theorem startup_state:
  "App_init = Inr \<lparr>selected_mod_type = ''BPSK'',
      current_mod_obj = Some \<lparr>cls = ModulationBase, current_row = 3, rate_var = ''0'',
        data_rate_var = ''0.00 bits/s'', diagram_var = ''*                *'',
        freq_dev_var = None\<rparr>\<rparr> \<and>
   calculate_data_rate (new_modulation ModulationBase) = Inr ''0.00 bits/s'' \<and>
   get_diagram (new_modulation ModulationBase) = ''*                *'' \<and>
   rate_var (new_modulation FSKModulation) = ''0'' \<and>
   rate_var (new_modulation QPSKModulation) = ''0'' \<and>
   freq_dev_var (new_modulation FSKModulation) = Some ''0''"
  by code_simp

text \<open>
  Claim C9.  \<open>change_mod_type\<close> with a name that is not a key of \<open>mod_types\<close> does not
  fail and does what it does for \<^verbatim>\<open>BPSK\<close>: the new object is of the base class, with the
  base formula and the base diagram.
\<close>

theorem unknown_name_falls_back_to_base:
  assumes "mod_name \<notin> {''BPSK'', ''QPSK'', ''FSK''}"
  shows "change_mod_type mod_name a = change_mod_type ''BPSK'' a \<and>
         (\<exists>a' obj. change_mod_type mod_name a = Inr a' \<and> current_mod_obj a' = Some obj \<and>
            cls obj = ModulationBase \<and>
            calculate_data_rate obj = ModulationBase_calculate_data_rate obj \<and>
            get_diagram obj = ''*                *'')"
proof -
  have m: "mod_types mod_name = None" using assms by (simp add: mod_types_def)
  have b: "mod_types ''BPSK'' = Some ModulationBase" by (simp add: mod_types_def)
  have same: "change_mod_type mod_name a = change_mod_type ''BPSK'' a"
    by (simp add: change_mod_type_def m b)
  have "cls (new_modulation ModulationBase) = ModulationBase"
    using new_modulation_inputs by simp
  then obtain s where t: "calculate_data_rate (new_modulation ModulationBase) = Inr s"
    using calculate_data_rate_total [of "new_modulation ModulationBase"] by auto
  then obtain obj where u: "update (new_modulation ModulationBase) = Inr obj"
    by (simp add: update_def Let_def)
  then have c: "cls obj = ModulationBase"
    using update_fields(1) [OF u] new_modulation_inputs by simp
  have "change_mod_type mod_name a = Inr (a\<lparr>current_mod_obj := Some obj\<rparr>)"
    using u by (simp add: change_mod_type_def m)
  moreover have "calculate_data_rate obj = ModulationBase_calculate_data_rate obj"
    using c by (simp add: calculate_data_rate_def)
  moreover have "get_diagram obj = ''*                *''"
    using c by (simp add: get_diagram_def ModulationBase_get_diagram_def)
  ultimately show ?thesis using same c by simp
qed

theorem unknown_name_falls_back_to_base_witness:
  "change_mod_type ''OOK'' \<lparr>selected_mod_type = ''OOK'', current_mod_obj = None\<rparr> =
     change_mod_type ''BPSK'' \<lparr>selected_mod_type = ''OOK'', current_mod_obj = None\<rparr>"
proof -
  have "''OOK'' \<notin> {''BPSK'', ''QPSK'', ''FSK''}" by simp
  from unknown_name_falls_back_to_base [OF this] show ?thesis by blast
qed



end
